theory Spec2Isabelle
  imports Main
begin

section \<open>The batch loader \<open>scripts/python/mig_load_data.py\<close>\<close>

text \<open>
  The script connects to the warehouse, prepares an internal stage and, for each configured
  table with a local \<open><table>.csv.gz\<close>, uploads the file under \<open>not_processed\<close>, runs a
  bulk load and, when that went through, re-uploads the file under \<open>processed\<close> and removes
  it from \<open>not_processed\<close>.

  The embedding is a state-passing one. The state (\<open>world\<close>) holds the contents of the
  internal stage and the trace of everything the script did to the connector. What lies
  outside the script is a parameter (\<open>env\<close>): which local files exist, what
  \<open>os.path.abspath\<close> returns, and which connector calls raise. The configuration module
  \<open>config\<close> is a parameter as well (\<open>config\<close>).

  Assumed of the environment: local files neither appear nor vanish during a run; a
  statement that raises leaves the stage as it was; \<open>conn.close()\<close> returns. Exceptions
  that are not subclasses of \<open>Exception\<close> (a keyboard interrupt) are left out.
\<close>

subsection \<open>Constants of the module\<close>

definition STAGE_NAME :: string where
  "STAGE_NAME = ''MIGRATION_LOAD_STAGE''"

definition PATH_TODO :: string where
  "PATH_TODO = ''not_processed''"

definition PATH_DONE :: string where
  "PATH_DONE = ''processed''"

subsection \<open>Exceptions, statements, events\<close>

text \<open>
  \<open>ProgrammingError\<close> is \<open>snowflake.connector.errors.ProgrammingError\<close>, the only class
  the inner handler names; \<open>OtherException\<close> stands for every other subclass of
  \<open>Exception\<close>; \<open>KeyError\<close> is what a missing key of \<open>TARGET_CONFIG\<close> raises.
\<close>

datatype exn = KeyError string | ProgrammingError | OtherException

datatype on_error = CONTINUE | SKIP_FILE | ABORT_STATEMENT

text \<open>
  A \<open>FILE_FORMAT = (...)\<close> clause. An option the statement does not write is \<open>None\<close>
  (or the empty list). The strings are the contents of the SQL literals as the Python
  f-string produces them.
\<close>

record file_format =
  fmt_type :: string
  skip_header :: "nat option"
  field_optionally_enclosed_by :: "string option"
  null_if :: "string list"

record copy_cmd =
  into_table :: string
  from_stage :: string
  from_prefix :: string
  from_file :: string
  copy_format :: file_format
  copy_on_error :: on_error
  purge :: bool

text \<open>
  The statements the script sends through \<open>cur.execute\<close>:
  \<^item> \<open>UseSchema database schema\<close>: \<open>USE SCHEMA {database}.{schema}\<close>;
  \<^item> \<open>CreateStage name if_not_exists format\<close>: \<open>CREATE STAGE [IF NOT EXISTS] name FILE_FORMAT=(...)\<close>;
  \<^item> \<open>Put local_path stage prefix overwrite\<close>: \<open>PUT file://local_path @stage/prefix/ OVERWRITE=...\<close>;
  \<^item> \<open>CopyInto c\<close>: \<open>COPY INTO "table" FROM @stage/prefix/file FILE_FORMAT = (...) ON_ERROR = ... PURGE = ...\<close>;
  \<^item> \<open>Remove stage prefix file\<close>: \<open>REMOVE @stage/prefix/file\<close>.
\<close>

datatype stmt =
    UseSchema string string
  | CreateStage string bool file_format
  | Put string string string bool
  | CopyInto copy_cmd
  | Remove string string string

text \<open>The messages of the script that mark a branch taken.\<close>

datatype log =
    Skipping string
  | LoadFailed string
  | CriticalError exn
  | Finished

text \<open>
  A file in the stage is a prefix and a file name. An \<open>Execute\<close> event records the
  statement, whether it raised, and the contents of the stage right after it.
\<close>

type_synonym stage = "(string \<times> string) set"

datatype event =
    Connect "exn option"
  | Cursor "exn option"
  | Execute stmt "exn option" stage
  | Close
  | Log log

record world =
  stage :: stage
  trace :: "event list"
  n_exec :: nat

record env =
  connect_result :: "exn option"
  cursor_result :: "exn option"
  abspath :: "string \<Rightarrow> exn + string"
  path_exists :: "string \<Rightarrow> bool"
  raises :: "nat \<Rightarrow> stmt \<Rightarrow> exn option"

record config =
  TARGET_CONFIG :: "string \<rightharpoonup> string"
  DATA_TABLES_TO_EXPORT :: "string list"
  OUTPUT_DIR_DATA :: string

subsection \<open>The warehouse primitives\<close>

text \<open>
  \<open>PUT\<close> stores the local file under the prefix with the file name of the local path
  (what follows its last \<open>/\<close>); \<open>REMOVE\<close> deletes the named file; the other statements
  leave the stage as it is.
\<close>

definition basename :: "string \<Rightarrow> string" where
  "basename p = rev (takeWhile (\<lambda>c. c \<noteq> CHR ''/'') (rev p))"

fun effect :: "stmt \<Rightarrow> stage \<Rightarrow> stage" where
  "effect (Put local_path st prefix ow) S = insert (prefix, basename local_path) S"
| "effect (Remove st prefix file) S = S - {(prefix, file)}"
| "effect (UseSchema d s) S = S"
| "effect (CreateStage n b f) S = S"
| "effect (CopyInto c) S = S"

text \<open>
  \<open>cur.execute(sql)\<close>: the \<open>n\<close>-th call of the run raises what \<open>raises env n sql\<close> says;
  a statement that raises leaves the stage unchanged.
\<close>

definition execute :: "env \<Rightarrow> stmt \<Rightarrow> world \<Rightarrow> exn option \<times> world" where
  "execute env s w =
     (let r = raises env (n_exec w) s;
          S = (if r = None then effect s (stage w) else stage w)
      in (r, w\<lparr>stage := S, trace := trace w @ [Execute s r S], n_exec := Suc (n_exec w)\<rparr>))"

definition emit :: "event \<Rightarrow> world \<Rightarrow> world" where
  "emit ev w = w\<lparr>trace := trace w @ [ev]\<rparr>"

text \<open>Sequencing: the next step runs only if the previous one did not raise.\<close>

definition then_do ::
  "exn option \<times> world \<Rightarrow> (world \<Rightarrow> exn option \<times> world) \<Rightarrow> exn option \<times> world" where
  "then_do rw f = (case fst rw of None \<Rightarrow> f (snd rw) | Some e \<Rightarrow> rw)"

subsection \<open>\<open>os.path.join\<close> (POSIX)\<close>

definition path_join :: "string \<Rightarrow> string \<Rightarrow> string" where
  "path_join a b =
     (if b \<noteq> [] \<and> hd b = CHR ''/'' then b
      else if a = [] \<or> last a = CHR ''/'' then a @ b
      else a @ ''/'' @ b)"

subsection \<open>\<open>get_connection\<close>\<close>

text \<open>
  The keys of \<open>TARGET_CONFIG\<close> in the order the function reads them: \<open>account\<close> for the
  message, then the arguments of \<open>connect\<close>.
\<close>

definition connection_keys :: "string list" where
  "connection_keys =
     [''account'', ''user'', ''password'', ''account'', ''warehouse'', ''database'',
      ''schema'', ''role'']"

fun first_missing :: "(string \<rightharpoonup> string) \<Rightarrow> string list \<Rightarrow> string option" where
  "first_missing m [] = None"
| "first_missing m (k # ks) = (case m k of None \<Rightarrow> Some k | Some v \<Rightarrow> first_missing m ks)"

definition get_connection :: "env \<Rightarrow> config \<Rightarrow> world \<Rightarrow> exn option \<times> world" where
  "get_connection env cfg w =
     (case first_missing (TARGET_CONFIG cfg) connection_keys of
        Some k \<Rightarrow> (Some (KeyError k), w)
      | None \<Rightarrow> (connect_result env, emit (Connect (connect_result env)) w))"

subsection \<open>\<open>main\<close>\<close>

definition stage_format :: file_format where
  "stage_format =
     \<lparr>fmt_type = ''CSV'', skip_header = None,
      field_optionally_enclosed_by = Some [CHR 0x22], null_if = []\<rparr>"

text \<open>
  The third null token is written with four backslashes in the Python source, which is two
  backslashes and the letter N in the SQL text sent to the warehouse.
\<close>

definition copy_sql :: "string \<Rightarrow> string \<Rightarrow> copy_cmd" where
  "copy_sql table filename =
     \<lparr>into_table = table, from_stage = STAGE_NAME, from_prefix = PATH_TODO,
      from_file = filename,
      copy_format =
        \<lparr>fmt_type = ''CSV'', skip_header = Some 1,
         field_optionally_enclosed_by = Some [CHR 0x22],
         null_if = [''NULL'', ''nan'', [CHR 0x5C, CHR 0x5C, CHR ''N'']]\<rparr>,
      copy_on_error = CONTINUE, purge = False\<rparr>"

definition filename_of :: "string \<Rightarrow> string" where
  "filename_of table = table @ ''.csv.gz''"

text \<open>
  The inner \<open>try\<close> (lines 76 to 96): the three statements in sequence; a
  \<open>ProgrammingError\<close> of any of them is reported and raised again, any other exception
  passes through.
\<close>

definition load_and_move :: "env \<Rightarrow> string \<Rightarrow> string \<Rightarrow> string \<Rightarrow> world \<Rightarrow> exn option \<times> world" where
  "load_and_move env table filename file_path_local w =
     (let rw =
        then_do (execute env (CopyInto (copy_sql table filename)) w) (\<lambda>w.
        then_do (execute env (Put file_path_local STAGE_NAME PATH_DONE True) w) (\<lambda>w.
          execute env (Remove STAGE_NAME PATH_TODO filename) w))
      in case fst rw of
           Some ProgrammingError \<Rightarrow> (Some ProgrammingError, emit (Log (LoadFailed table)) (snd rw))
         | _ \<Rightarrow> rw)"

text \<open>One iteration of the loop (lines 40 to 96).\<close>

definition process_table :: "env \<Rightarrow> string \<Rightarrow> string \<Rightarrow> world \<Rightarrow> exn option \<times> world" where
  "process_table env abs_path table w =
     (let filename = filename_of table;
          file_path_local = path_join abs_path filename
      in if \<not> path_exists env file_path_local
         then (None, emit (Log (Skipping table)) w)
         else then_do (execute env (Put file_path_local STAGE_NAME PATH_TODO True) w)
                (load_and_move env table filename file_path_local))"

text \<open>The \<open>for\<close> loop: an exception leaves it at once.\<close>

fun process_tables :: "env \<Rightarrow> string \<Rightarrow> string list \<Rightarrow> world \<Rightarrow> exn option \<times> world" where
  "process_tables env abs_path [] w = (None, w)"
| "process_tables env abs_path (table # tables) w =
     then_do (process_table env abs_path table w) (process_tables env abs_path tables)"

text \<open>The body of the outer \<open>try\<close> (lines 31 to 96).\<close>

definition try_body :: "env \<Rightarrow> config \<Rightarrow> string \<Rightarrow> world \<Rightarrow> exn option \<times> world" where
  "try_body env cfg abs_path w =
     (case TARGET_CONFIG cfg ''database'' of
        None \<Rightarrow> (Some (KeyError ''database''), w)
      | Some d \<Rightarrow>
         (case TARGET_CONFIG cfg ''schema'' of
            None \<Rightarrow> (Some (KeyError ''schema''), w)
          | Some s \<Rightarrow>
             then_do (execute env (UseSchema d s) w) (\<lambda>w.
             then_do (execute env (CreateStage STAGE_NAME True stage_format) w)
               (process_tables env abs_path (DATA_TABLES_TO_EXPORT cfg)))))"

text \<open>
  How the process ends: \<open>Exit n\<close> with a status, or an exception that left \<open>main\<close>
  (the interpreter then prints the traceback and exits with status 1).
\<close>

datatype outcome = Exit nat | Uncaught exn

fun exit_status :: "outcome \<Rightarrow> nat" where
  "exit_status (Exit n) = n"
| "exit_status (Uncaught e) = 1"

text \<open>
  \<open>main\<close>: connection, cursor and absolute path are obtained before the \<open>try\<close>; the
  handler of \<open>Exception\<close> reports and calls \<open>exit(1)\<close>; the \<open>finally\<close> clause closes the
  connection on both paths.
\<close>

definition main :: "env \<Rightarrow> config \<Rightarrow> stage \<Rightarrow> outcome \<times> world" where
  "main env cfg S0 =
     (let w0 = \<lparr>stage = S0, trace = [], n_exec = 0\<rparr>;
          (r1, w1) = get_connection env cfg w0
      in case r1 of
           Some e \<Rightarrow> (Uncaught e, w1)
         | None \<Rightarrow>
            (let w2 = emit (Cursor (cursor_result env)) w1
             in case cursor_result env of
                  Some e \<Rightarrow> (Uncaught e, w2)
                | None \<Rightarrow>
                   (case abspath env (OUTPUT_DIR_DATA cfg) of
                      Inl e \<Rightarrow> (Uncaught e, w2)
                    | Inr abs_path \<Rightarrow>
                       (let (r3, w3) = try_body env cfg abs_path w2;
                            (status, w4) =
                              (case r3 of
                                 None \<Rightarrow> (Exit 0, w3)
                               | Some e \<Rightarrow> (Exit 1, emit (Log (CriticalError e)) w3))
                        in (status, emit (Log Finished) (emit Close w4))))))"

subsection \<open>What the warehouse makes of the options\<close>

text \<open>
  A doubled backslash inside a SQL string literal denotes one backslash.
\<close>

fun sql_unescape :: "string \<Rightarrow> string" where
  "sql_unescape (c # d # cs) =
     (if c = CHR 0x5C \<and> d = CHR 0x5C then CHR 0x5C # sql_unescape cs
      else c # sql_unescape (d # cs))"
| "sql_unescape cs = cs"

text \<open>
  \<open>ON_ERROR\<close>: whether a staged file with \<open>n\<close> rows that do not parse makes the \<open>COPY\<close>
  statement itself raise. Only \<open>ABORT_STATEMENT\<close> does; \<open>CONTINUE\<close> loads the rows that
  parse and \<open>SKIP_FILE\<close> skips the file, and both return normally.
\<close>

fun aborts_on_bad_rows :: "on_error \<Rightarrow> nat \<Rightarrow> bool" where
  "aborts_on_bad_rows ABORT_STATEMENT n = (0 < n)"
| "aborts_on_bad_rows CONTINUE n = False"
| "aborts_on_bad_rows SKIP_FILE n = False"

subsection \<open>Reading the trace\<close>

fun is_execute :: "event \<Rightarrow> bool" where
  "is_execute (Execute s r S) = True"
| "is_execute ev = False"

fun failed :: "event \<Rightarrow> bool" where
  "failed (Execute s (Some e) S) = True"
| "failed ev = False"

text \<open>The four statements of the iteration for table \<open>t\<close>, and the two before the loop.\<close>

definition table_stmts :: "string \<Rightarrow> string \<Rightarrow> stmt set" where
  "table_stmts a t =
     {Put (path_join a (filename_of t)) STAGE_NAME PATH_TODO True,
      CopyInto (copy_sql t (filename_of t)),
      Put (path_join a (filename_of t)) STAGE_NAME PATH_DONE True,
      Remove STAGE_NAME PATH_TODO (filename_of t)}"

fun setup_stmt :: "stmt \<Rightarrow> bool" where
  "setup_stmt (UseSchema d c) = True"
| "setup_stmt (CreateStage n b f) = (n = STAGE_NAME \<and> b \<and> f = stage_format)"
| "setup_stmt s = False"

text \<open>The statements executed, in order, each with what it raised.\<close>

fun executed :: "event list \<Rightarrow> (stmt \<times> exn option) list" where
  "executed [] = []"
| "executed (Execute s r S # evs) = (s, r) # executed evs"
| "executed (ev # evs) = executed evs"


definition closes :: "event list \<Rightarrow> nat" where
  "closes evs = length (filter (\<lambda>ev. ev = Close) evs)"

definition enters_try :: "env \<Rightarrow> config \<Rightarrow> string \<Rightarrow> bool" where
  "enters_try env cfg a =
     (first_missing (TARGET_CONFIG cfg) connection_keys = None \<and>
      connect_result env = None \<and> cursor_result env = None \<and>
      abspath env (OUTPUT_DIR_DATA cfg) = Inr a)"


subsection \<open>Invariants of a run\<close>

text \<open>
  Read off the trace: a statement that raised is followed by no other
  statement; the stage is the one recorded by the last statement; and every \<open>COPY\<close> finds
  its file under \<open>not_processed\<close>.
\<close>

fun stops_at_failure :: "event list \<Rightarrow> bool" where
  "stops_at_failure [] = True"
| "stops_at_failure (ev # evs) =
     ((failed ev \<longrightarrow> (\<forall>x \<in> set evs. \<not> is_execute x)) \<and> stops_at_failure evs)"

fun last_stage :: "stage \<Rightarrow> event list \<Rightarrow> stage" where
  "last_stage S [] = S"
| "last_stage S (Execute s r S' # evs) = last_stage S' evs"
| "last_stage S (ev # evs) = last_stage S evs"

definition copies_staged :: "event list \<Rightarrow> bool" where
  "copies_staged evs =
     (\<forall>c x S. Execute (CopyInto c) x S \<in> set evs \<longrightarrow> (PATH_TODO, from_file c) \<in> S)"

definition sound :: "stage \<Rightarrow> exn option \<Rightarrow> world \<Rightarrow> bool" where
  "sound S0 r w =
     ((r = None \<longrightarrow> (\<forall>ev \<in> set (trace w). \<not> failed ev)) \<and>
      stops_at_failure (trace w) \<and>
      stage w = last_stage S0 (trace w) \<and>
      copies_staged (trace w))"

subsection \<open>The two prefixes\<close>

text \<open>
  A table's file is in both prefixes (\<open>overlap\<close>). The move step: the state right after a
  successful upload to \<open>processed\<close>, which lasts until the removal from \<open>not_processed\<close>
  has succeeded, so a removal that raised is still inside it. \<open>archived_apart ts S\<close>: no
  file is in both prefixes and no table of \<open>ts\<close> has its file under \<open>processed\<close>.
\<close>

definition overlap :: "stage \<Rightarrow> string \<Rightarrow> bool" where
  "overlap S t = ((PATH_TODO, filename_of t) \<in> S \<and> (PATH_DONE, filename_of t) \<in> S)"

fun in_move_step :: "event \<Rightarrow> bool" where
  "in_move_step (Execute (Put l st p ow) None S) = (p = PATH_DONE)"
| "in_move_step (Execute (Remove st p f) (Some e) S) = True"
| "in_move_step ev = False"

fun failed_remove :: "event \<Rightarrow> bool" where
  "failed_remove (Execute (Remove st p f) (Some e) S) = True"
| "failed_remove ev = False"

definition archived_apart :: "string list \<Rightarrow> stage \<Rightarrow> bool" where
  "archived_apart ts S =
     (\<forall>t. (PATH_DONE, filename_of t) \<in> S \<longrightarrow> (PATH_TODO, filename_of t) \<notin> S \<and> t \<notin> set ts)"

definition stable_apart :: "event list \<Rightarrow> bool" where
  "stable_apart evs =
     (\<forall>s x S. Execute s x S \<in> set evs \<and> \<not> in_move_step (Execute s x S) \<longrightarrow> (\<forall>t. \<not> overlap S t))"

subsection \<open>Concrete runs\<close>

text \<open>
  A complete configuration, and an environment in which the connection, the cursor and the
  absolute path \<open>/work/out\<close> are obtained; the local files and the warehouse's answers are
  parameters.
\<close>

definition demo_target :: "string \<rightharpoonup> string" where
  "demo_target =
     map_of [(''account'', ''acme''), (''user'', ''loader''), (''password'', ''secret''),
             (''warehouse'', ''WH''), (''database'', ''DB''), (''schema'', ''PUBLIC''),
             (''role'', ''SYSADMIN'')]"

definition demo_config :: "string list \<Rightarrow> config" where
  "demo_config tables =
     \<lparr>TARGET_CONFIG = demo_target, DATA_TABLES_TO_EXPORT = tables, OUTPUT_DIR_DATA = ''out''\<rparr>"

definition demo_env :: "(string \<Rightarrow> bool) \<Rightarrow> (nat \<Rightarrow> stmt \<Rightarrow> exn option) \<Rightarrow> env" where
  "demo_env ex rs =
     \<lparr>connect_result = None, cursor_result = None,
      abspath = (\<lambda>d. Inr (''/work/'' @ d)), path_exists = ex, raises = rs\<rparr>"

definition always_ok :: "nat \<Rightarrow> stmt \<Rightarrow> exn option" where
  "always_ok n s = None"

text \<open>An environment in which the warehouse refuses the connection.\<close>

definition refusing_env :: env where
  "refusing_env = (demo_env (\<lambda>p. True) always_ok)\<lparr>connect_result := Some OtherException\<rparr>"

text \<open>
  A file system holding only the file of table A, and a warehouse that accepts everything
  except the statements for table B.
\<close>

definition only_A :: "string \<Rightarrow> bool" where
  "only_A p = (p = ''/work/out/A.csv.gz'')"

definition rejects_B :: "nat \<Rightarrow> stmt \<Rightarrow> exn option" where
  "rejects_B n s = (if s \<in> table_stmts ''/work/out'' ''B'' then Some ProgrammingError else None)"

text \<open>A warehouse that rejects every \<open>COPY\<close> and accepts everything else.\<close>

fun is_copy :: "stmt \<Rightarrow> bool" where
  "is_copy (CopyInto c) = True"
| "is_copy s = False"

definition rejects_copy :: "nat \<Rightarrow> stmt \<Rightarrow> exn option" where
  "rejects_copy n s = (if is_copy s then Some ProgrammingError else None)"

section \<open>Properties\<close>

subsection \<open>Basic facts\<close>

lemmas eval_defs = main_def get_connection_def demo_env_def demo_config_def demo_target_def
  connection_keys_def emit_def try_body_def execute_def always_ok_def Let_def
  process_table_def load_and_move_def filename_of_def path_join_def basename_def
  then_do_def

lemma then_do_None [simp]: "then_do (None, w) f = f w"
  by (simp add: then_do_def)

lemma then_do_Some [simp]: "then_do (Some e, w) f = (Some e, w)"
  by (simp add: then_do_def)

lemma trace_emit [simp]: "trace (emit ev w) = trace w @ [ev]"
  by (simp add: emit_def)

lemma stage_emit [simp]: "stage (emit ev w) = stage w"
  by (simp add: emit_def)

lemma n_exec_emit [simp]: "n_exec (emit ev w) = n_exec w"
  by (simp add: emit_def)

lemma executed_append [simp]: "executed (xs @ ys) = executed xs @ executed ys"
  by (induction xs rule: executed.induct) simp_all

lemma filename_of_inject [simp]: "filename_of t = filename_of t' \<longleftrightarrow> t = t'"
  by (simp add: filename_of_def)

lemma execute_trace:
  "execute env s w = (r, w') \<Longrightarrow> \<exists>S. trace w' = trace w @ [Execute s r S]"
  by (auto simp: execute_def Let_def)

subsection \<open>Rules for the loop and for the body of the \<open>try\<close>\<close>

text \<open>
  A property \<open>I r w\<close> of result and state that holds before the loop and that every
  iteration started without an exception establishes, holds when the loop is left.
\<close>

lemma process_tables_rule:
  assumes "process_tables env a ts w = (r, w')" and "I None w"
    and "\<And>t w r w'. t \<in> set ts \<Longrightarrow> I None w \<Longrightarrow> process_table env a t w = (r, w') \<Longrightarrow> I r w'"
  shows "I r w'"
  using assms
proof (induction ts arbitrary: w)
  case Nil
  then show ?case by simp
next
  case (Cons t ts)
  obtain r1 w1 where p: "process_table env a t w = (r1, w1)"
    by (cases "process_table env a t w")
  have i1: "I r1 w1"
    by (rule Cons.prems(3)[OF _ Cons.prems(2) p]) simp
  show ?case
  proof (cases r1)
    case None
    with p Cons.prems(1) have pt: "process_tables env a ts w1 = (r, w')" by simp
    have i1': "I None w1" using i1 None by simp
    show ?thesis
    proof (rule Cons.IH[OF pt i1'])
      fix t' w r w'
      assume "t' \<in> set ts" "I None w" "process_table env a t' w = (r, w')"
      then show "I r w'"
        using Cons.prems(3)[of t' w r w'] by simp
    qed
  next
    case (Some e)
    with p Cons.prems(1) have "r = r1" "w' = w1" by simp_all
    with i1 show ?thesis by simp
  qed
qed

lemma try_body_rule:
  assumes "try_body env cfg a w = (r, w')" and "I None w"
    and "\<And>k. I (Some (KeyError k)) w"
    and "\<And>s w r w'. (\<exists>d c. s = UseSchema d c) \<or> s = CreateStage STAGE_NAME True stage_format \<Longrightarrow>
           I None w \<Longrightarrow> execute env s w = (r, w') \<Longrightarrow> I r w'"
    and "\<And>t w r w'. t \<in> set (DATA_TABLES_TO_EXPORT cfg) \<Longrightarrow> I None w \<Longrightarrow>
           process_table env a t w = (r, w') \<Longrightarrow> I r w'"
  shows "I r w'"
proof (cases "TARGET_CONFIG cfg ''database''")
  case None
  with assms(1,3) show ?thesis by (auto simp: try_body_def)
next
  case d: (Some d)
  show ?thesis
  proof (cases "TARGET_CONFIG cfg ''schema''")
    case None
    with d assms(1,3) show ?thesis by (auto simp: try_body_def)
  next
    case s: (Some s)
    obtain r1 w1 where e1: "execute env (UseSchema d s) w = (r1, w1)"
      by (cases "execute env (UseSchema d s) w")
    have i1: "I r1 w1" using assms(4)[OF _ assms(2) e1] by blast
    show ?thesis
    proof (cases r1)
      case (Some e)
      with d s e1 assms(1) have "r = r1" "w' = w1" by (simp_all add: try_body_def)
      with i1 show ?thesis by simp
    next
      case None
      obtain r2 w2 where e2: "execute env (CreateStage STAGE_NAME True stage_format) w1 = (r2, w2)"
        by (cases "execute env (CreateStage STAGE_NAME True stage_format) w1")
      have i2: "I r2 w2" using assms(4)[OF _ _ e2] i1 None by blast
      show ?thesis
      proof (cases r2)
        case (Some e)
        with d s e1 e2 None assms(1) have "r = r2" "w' = w2" by (simp_all add: try_body_def)
        with i2 show ?thesis by simp
      next
        case n2: None
        with d s e1 e2 None assms(1)
        have "process_tables env a (DATA_TABLES_TO_EXPORT cfg) w2 = (r, w')"
          by (simp add: try_body_def)
        then show ?thesis
          using process_tables_rule[where I = I] i2 n2 assms(5) by blast
      qed
    qed
  qed
qed

subsection \<open>The statements a run can issue\<close>

lemma process_table_events:
  assumes "process_table env a t w = (r, w')"
  shows "\<exists>new. trace w' = trace w @ new \<and>
           (\<forall>s r S. Execute s r S \<in> set new \<longrightarrow>
              path_exists env (path_join a (filename_of t)) \<and> s \<in> table_stmts a t) \<and>
           (\<forall>ev \<in> set new. is_execute ev \<or> ev = Log (Skipping t) \<or> ev = Log (LoadFailed t))"
  using assms
  unfolding process_table_def load_and_move_def execute_def then_do_def table_stmts_def
  by (auto simp: Let_def split: if_splits option.splits exn.splits)

lemma main_cases:
  assumes "main env cfg S0 = (out, w)"
  shows "(\<exists>e. out = Uncaught e \<and> stage w = S0 \<and>
            (trace w = [] \<or> trace w = [Connect (Some e)] \<or> trace w = [Connect None, Cursor (Some e)]
              \<or> trace w = [Connect None, Cursor None]))
         \<or> (\<exists>a r3 w3. abspath env (OUTPUT_DIR_DATA cfg) = Inr a \<and>
              try_body env cfg a \<lparr>stage = S0, trace = [Connect None, Cursor None], n_exec = 0\<rparr> = (r3, w3) \<and>
              stage w = stage w3 \<and>
              (case r3 of None \<Rightarrow> out = Exit 0 \<and> trace w = trace w3 @ [Close, Log Finished]
               | Some e \<Rightarrow> out = Exit 1 \<and> trace w = trace w3 @ [Log (CriticalError e), Close, Log Finished]))"
  using assms
  unfolding main_def get_connection_def
  by (auto simp: Let_def emit_def split: option.splits sum.splits prod.splits)

lemma try_body_executes:
  assumes "try_body env cfg a w = (r, w')"
    and "\<forall>ev \<in> set (trace w). \<not> is_execute ev"
    and "Execute s x S \<in> set (trace w')"
  shows "setup_stmt s \<or>
         (\<exists>t \<in> set (DATA_TABLES_TO_EXPORT cfg).
            path_exists env (path_join a (filename_of t)) \<and> s \<in> table_stmts a t)"
proof -
  define ok where "ok = (\<lambda>s. setup_stmt s \<or>
         (\<exists>t \<in> set (DATA_TABLES_TO_EXPORT cfg).
            path_exists env (path_join a (filename_of t)) \<and> s \<in> table_stmts a t))"
  let ?I = "\<lambda>(r::exn option) w. \<forall>s x S. Execute s x S \<in> set (trace w) \<longrightarrow> ok s"
  have "?I r w'"
  proof (rule try_body_rule[where I = ?I, OF assms(1)])
    show "?I None w" using assms(2) by fastforce
    show "\<And>k. ?I (Some (KeyError k)) w" using assms(2) by fastforce
  next
    fix s w r w'
    assume s: "(\<exists>d c. s = UseSchema d c) \<or> s = CreateStage STAGE_NAME True stage_format"
      and i: "?I None w" and e: "execute env s w = (r, w')"
    from s have "ok s" unfolding ok_def by auto
    moreover obtain S where "trace w' = trace w @ [Execute s r S]"
      using execute_trace[OF e] by blast
    ultimately show "?I r w'" using i by auto
  next
    fix t w r w'
    assume t: "t \<in> set (DATA_TABLES_TO_EXPORT cfg)" and i: "?I None w"
      and p: "process_table env a t w = (r, w')"
    obtain new where n: "trace w' = trace w @ new"
      and m: "\<forall>s r S. Execute s r S \<in> set new \<longrightarrow>
              path_exists env (path_join a (filename_of t)) \<and> s \<in> table_stmts a t"
      using process_table_events[OF p] by blast
    from m t have k: "\<forall>s r S. Execute s r S \<in> set new \<longrightarrow> ok s"
      unfolding ok_def by blast
    show "?I r w'"
    proof (intro allI impI)
      fix s x S
      assume "Execute s x S \<in> set (trace w')"
      then consider "Execute s x S \<in> set (trace w)" | "Execute s x S \<in> set new"
        using n by auto
      then show "ok s" using i k by cases blast+
    qed
  qed
  then show ?thesis using assms(3) unfolding ok_def by blast
qed

lemma main_executes:
  assumes "main env cfg S0 = (out, w)" and "Execute s x S \<in> set (trace w)"
  shows "setup_stmt s \<or>
         (\<exists>a. abspath env (OUTPUT_DIR_DATA cfg) = Inr a \<and>
           (\<exists>t \<in> set (DATA_TABLES_TO_EXPORT cfg).
              path_exists env (path_join a (filename_of t)) \<and> s \<in> table_stmts a t))"
proof -
  from main_cases[OF assms(1)] show ?thesis
  proof (elim disjE exE conjE)
    fix e assume "trace w = []" with assms(2) show ?thesis by simp
  next
    fix e assume "trace w = [Connect (Some e)]" with assms(2) show ?thesis by simp
  next
    fix e assume "trace w = [Connect None, Cursor (Some e)]" with assms(2) show ?thesis by simp
  next
    fix e assume "trace w = [Connect None, Cursor None]" with assms(2) show ?thesis by simp
  next
    fix a r3 w3
    assume a: "abspath env (OUTPUT_DIR_DATA cfg) = Inr a"
      and tb: "try_body env cfg a \<lparr>stage = S0, trace = [Connect None, Cursor None], n_exec = 0\<rparr> = (r3, w3)"
      and c: "case r3 of None \<Rightarrow> out = Exit 0 \<and> trace w = trace w3 @ [Close, Log Finished]
               | Some e \<Rightarrow> out = Exit 1 \<and> trace w = trace w3 @ [Log (CriticalError e), Close, Log Finished]"
    from c assms(2) have "Execute s x S \<in> set (trace w3)"
      by (auto split: option.splits)
    from try_body_executes[OF tb _ this] a show ?thesis by auto
  qed
qed

subsection \<open>The bulk-load command\<close>

text \<open>
  Claim C5. Every \<open>COPY\<close> statement a run issues is the one for a configured table, read
  from that table's file under \<open>not_processed\<close>, and it skips one header row, parses
  fields optionally enclosed in double quotes, substitutes the null tokens \<open>NULL\<close>, \<open>nan\<close>
  and backslash-N, continues over rows that do not parse, and does not purge the staged
  file.
\<close>

theorem copy_options:
  assumes "main env cfg S0 = (out, w)" and "Execute (CopyInto c) x S \<in> set (trace w)"
  shows "skip_header (copy_format c) = Some 1 \<and>
         field_optionally_enclosed_by (copy_format c) = Some [CHR 0x22] \<and>
         map sql_unescape (null_if (copy_format c)) = [''NULL'', ''nan'', [CHR 0x5C, CHR ''N'']] \<and>
         copy_on_error c = CONTINUE \<and>
         purge c = False \<and>
         (\<exists>t \<in> set (DATA_TABLES_TO_EXPORT cfg).
            into_table c = t \<and> from_stage c = STAGE_NAME \<and> from_prefix c = PATH_TODO \<and>
            from_file c = filename_of t)"
  using main_executes[OF assms]
  by (auto simp: table_stmts_def copy_sql_def)

theorem copy_options_witness:
  "Execute (CopyInto (copy_sql ''A'' ''A.csv.gz'')) None {(PATH_TODO, ''A.csv.gz'')}
     \<in> set (trace (snd (main (demo_env (\<lambda>p. True) always_ok) (demo_config [''A'']) {}))) \<and>
   skip_header (copy_format (copy_sql ''A'' ''A.csv.gz'')) = Some 1 \<and>
   map sql_unescape (null_if (copy_format (copy_sql ''A'' ''A.csv.gz''))) =
     [''NULL'', ''nan'', [CHR 0x5C, CHR ''N'']] \<and>
   copy_on_error (copy_sql ''A'' ''A.csv.gz'') = CONTINUE \<and>
   purge (copy_sql ''A'' ''A.csv.gz'') = False"
proof -
  let ?m = "main (demo_env (\<lambda>p. True) always_ok) (demo_config [''A'']) {}"
  have run: "?m = (fst ?m, snd ?m)" by simp
  have ev: "Execute (CopyInto (copy_sql ''A'' ''A.csv.gz'')) None {(PATH_TODO, ''A.csv.gz'')}
     \<in> set (trace (snd ?m))"
    by (simp add: eval_defs)
  from copy_options[OF run ev] ev show ?thesis by simp
qed

text \<open>
  Claim C3. The command the script builds sets \<open>ON_ERROR\<close> to \<open>CONTINUE\<close>, for every table;
  under that option no number of rows that fail to parse makes the statement raise. (The
  comment above the command in the source announces \<open>ABORT_STATEMENT\<close>.)
\<close>

theorem copy_sql_never_aborts_on_bad_rows:
  "copy_on_error (copy_sql table filename) = CONTINUE \<and>
   \<not> aborts_on_bad_rows (copy_on_error (copy_sql table filename)) n"
  by (simp add: copy_sql_def)

subsection \<open>A connection that cannot be established\<close>

text \<open>
  Claim C8. If \<open>get_connection\<close> raises, the exception leaves \<open>main\<close> uncaught: the handler
  that reports a critical error has not run, the connection has not been closed, no
  statement has been executed and the stage is as it was.
\<close>

theorem connection_failure_propagates:
  assumes "get_connection env cfg \<lparr>stage = S0, trace = [], n_exec = 0\<rparr> = (Some e, w1)"
  shows "main env cfg S0 = (Uncaught e, w1) \<and>
         Close \<notin> set (trace w1) \<and>
         (\<forall>x. Log (CriticalError x) \<notin> set (trace w1)) \<and>
         (\<forall>ev \<in> set (trace w1). \<not> is_execute ev) \<and>
         stage w1 = S0"
  using assms
  by (auto simp: main_def get_connection_def emit_def split: option.splits)

theorem connection_failure_propagates_witness:
  "get_connection refusing_env (demo_config [''A'']) \<lparr>stage = {}, trace = [], n_exec = 0\<rparr>
     = (Some OtherException, \<lparr>stage = {}, trace = [Connect (Some OtherException)], n_exec = 0\<rparr>) \<and>
   main refusing_env (demo_config [''A'']) {}
     = (Uncaught OtherException, \<lparr>stage = {}, trace = [Connect (Some OtherException)], n_exec = 0\<rparr>)"
proof -
  have g: "get_connection refusing_env (demo_config [''A'']) \<lparr>stage = {}, trace = [], n_exec = 0\<rparr>
     = (Some OtherException, \<lparr>stage = {}, trace = [Connect (Some OtherException)], n_exec = 0\<rparr>)"
    by (simp add: eval_defs refusing_env_def)
  from connection_failure_propagates[OF g] g show ?thesis by simp
qed

subsection \<open>One iteration\<close>

text \<open>
  A table name without \<open>/\<close> gives a local path whose file name is \<open><table>.csv.gz\<close>, the
  name the \<open>COPY\<close> and \<open>REMOVE\<close> statements use.
\<close>

lemma basename_append:
  assumes "CHR ''/'' \<notin> set f" and "a = [] \<or> last a = CHR ''/''"
  shows "basename (a @ f) = f"
proof -
  have "takeWhile (\<lambda>c. c \<noteq> CHR ''/'') (rev f @ rev a) = rev f @ takeWhile (\<lambda>c. c \<noteq> CHR ''/'') (rev a)"
    using assms(1) by (intro takeWhile_append2) auto
  moreover have "takeWhile (\<lambda>c. c \<noteq> CHR ''/'') (rev a) = []"
    using assms(2) by (cases a rule: rev_cases) auto
  ultimately show ?thesis by (simp add: basename_def)
qed

lemma basename_local:
  assumes "CHR ''/'' \<notin> set t"
  shows "basename (path_join a (filename_of t)) = filename_of t"
proof -
  have f: "CHR ''/'' \<notin> set (filename_of t)" using assms by (simp add: filename_of_def)
  have ne: "filename_of t \<noteq> []" by (simp add: filename_of_def)
  have hd: "hd (filename_of t) \<noteq> CHR ''/''"
    using f ne by (cases "filename_of t") auto
  show ?thesis
  proof (cases "a = [] \<or> last a = CHR ''/''")
    case True
    then show ?thesis using hd basename_append[OF f True] by (simp add: path_join_def)
  next
    case False
    have "basename ((a @ ''/'') @ filename_of t) = filename_of t"
      by (rule basename_append[OF f]) simp
    then show ?thesis using False hd by (simp add: path_join_def)
  qed
qed



text \<open>
  Claim C9. An iteration touches only its own table's file: every \<open>REMOVE\<close> it issues names
  \<open><table>.csv.gz\<close> under \<open>not_processed\<close>, every \<open>PUT\<close> uploads the file of that name, and
  for every other table the file is under a prefix after the iteration exactly if it was
  there before.
\<close>

theorem iteration_touches_only_own_file:
  assumes "CHR ''/'' \<notin> set table" and "process_table env a table w = (r, w')"
  shows "(\<exists>new. trace w' = trace w @ new \<and>
            (\<forall>st p f x S. Execute (Remove st p f) x S \<in> set new \<longrightarrow>
               st = STAGE_NAME \<and> p = PATH_TODO \<and> f = filename_of table) \<and>
            (\<forall>l st p ow x S. Execute (Put l st p ow) x S \<in> set new \<longrightarrow>
               st = STAGE_NAME \<and> basename l = filename_of table)) \<and>
         (\<forall>t' p. t' \<noteq> table \<longrightarrow>
            ((p, filename_of t') \<in> stage w' \<longleftrightarrow> (p, filename_of t') \<in> stage w))"
  using assms basename_local[OF assms(1), of a]
  unfolding process_table_def load_and_move_def execute_def then_do_def
  by (auto simp: Let_def split: option.splits exn.splits if_splits)

theorem iteration_touches_only_own_file_witness:
  "CHR ''/'' \<notin> set ''A'' \<and> ''B'' \<noteq> ''A'' \<and>
   (PATH_TODO, filename_of ''B'') \<in> stage \<lparr>stage = {(PATH_TODO, ''B.csv.gz'')}, trace = [], n_exec = 0\<rparr> \<and>
   (PATH_TODO, filename_of ''B'') \<in>
     stage (snd (process_table (demo_env (\<lambda>p. True) always_ok) ''/work/out'' ''A''
          \<lparr>stage = {(PATH_TODO, ''B.csv.gz'')}, trace = [], n_exec = 0\<rparr>))"
proof -
  let ?E = "demo_env (\<lambda>p. True) always_ok"
  let ?W = "\<lparr>stage = {(PATH_TODO, ''B.csv.gz'')}, trace = [], n_exec = 0\<rparr>"
  let ?P = "process_table ?E ''/work/out'' ''A'' ?W"
  have h1: "CHR ''/'' \<notin> set ''A''" by simp
  have h2: "?P = (fst ?P, snd ?P)" by simp
  have b: "(PATH_TODO, filename_of ''B'') \<in> stage ?W" by (simp add: filename_of_def)
  have fr: "\<forall>t' p. t' \<noteq> ''A'' \<longrightarrow>
            ((p, filename_of t') \<in> stage (snd ?P) \<longleftrightarrow> (p, filename_of t') \<in> stage ?W)"
    using iteration_touches_only_own_file[OF h1 h2] by (rule conjunct2)
  have "(PATH_TODO, filename_of ''B'') \<in> stage (snd ?P)"
    using fr[rule_format, of "''B''" PATH_TODO] b by simp
  with b h1 show ?thesis by simp
qed

subsection \<open>The connection\<close>

lemma main_entered:
  assumes "enters_try env cfg a"
  shows "main env cfg S0 =
     (case try_body env cfg a \<lparr>stage = S0, trace = [Connect None, Cursor None], n_exec = 0\<rparr> of
        (None, w3) \<Rightarrow> (Exit 0, w3\<lparr>trace := trace w3 @ [Close, Log Finished]\<rparr>)
      | (Some e, w3) \<Rightarrow>
          (Exit 1, w3\<lparr>trace := trace w3 @ [Log (CriticalError e), Close, Log Finished]\<rparr>))"
  using assms
  by (auto simp: enters_try_def main_def get_connection_def emit_def Let_def
      split: option.splits prod.splits)






subsection \<open>A run with nothing to load\<close>

lemma process_tables_all_missing:
  assumes "\<forall>t \<in> set ts. \<not> path_exists env (path_join a (filename_of t))"
  shows "process_tables env a ts w = (None, w\<lparr>trace := trace w @ map (\<lambda>t. Log (Skipping t)) ts\<rparr>)"
  using assms
proof (induction ts arbitrary: w)
  case Nil
  then show ?case by simp
next
  case (Cons t ts)
  have "process_table env a t w = (None, emit (Log (Skipping t)) w)"
    using Cons.prems by (simp add: process_table_def Let_def)
  moreover have "process_tables env a ts (emit (Log (Skipping t)) w) =
      (None, (emit (Log (Skipping t)) w)\<lparr>trace := trace (emit (Log (Skipping t)) w) @ map (\<lambda>t. Log (Skipping t)) ts\<rparr>)"
    using Cons.IH Cons.prems by simp
  ultimately show ?case by (simp add: emit_def)
qed

lemma executed_skips [simp]: "executed (map (\<lambda>t. Log (Skipping t)) ts) = []"
  by (induction ts) simp_all

lemma closes_skips [simp]: "closes (map (\<lambda>t. Log (Skipping t)) ts) = 0"
  by (induction ts) (simp_all add: closes_def)

text \<open>
  Claim C10. When the table list is empty or no configured table has a local file, a run
  that reaches the \<open>try\<close> executes \<open>USE SCHEMA\<close> and, if that went through,
  \<open>CREATE STAGE IF NOT EXISTS\<close>, and no other statement; it closes the connection once and
  leaves the stage as it was. When the two statements succeed the trace is exactly:
  connect, cursor, the two statements, one skip message per table, close, final message;
  and the status is 0.
\<close>

theorem nothing_to_load:
  assumes "enters_try env cfg a"
    and "\<forall>t \<in> set (DATA_TABLES_TO_EXPORT cfg). \<not> path_exists env (path_join a (filename_of t))"
    and "TARGET_CONFIG cfg ''database'' = Some d" and "TARGET_CONFIG cfg ''schema'' = Some s"
    and "r1 = raises env 0 (UseSchema d s)"
    and "r2 = raises env 1 (CreateStage STAGE_NAME True stage_format)"
    and "main env cfg S0 = (out, w)"
  shows "executed (trace w) =
           (UseSchema d s, r1) #
           (if r1 = None then [(CreateStage STAGE_NAME True stage_format, r2)] else []) \<and>
         closes (trace w) = 1 \<and> stage w = S0 \<and>
         (r1 = None \<and> r2 = None \<longrightarrow>
            out = Exit 0 \<and>
            trace w =
              [Connect None, Cursor None, Execute (UseSchema d s) None S0,
               Execute (CreateStage STAGE_NAME True stage_format) None S0] @
              map (\<lambda>t. Log (Skipping t)) (DATA_TABLES_TO_EXPORT cfg) @ [Close, Log Finished])"
proof -
  note pt = process_tables_all_missing[OF assms(2)]
  show ?thesis
  proof (cases r1)
    case (Some e)
    then show ?thesis
      using assms(3-7) main_entered[OF assms(1), of S0]
      by (auto simp: try_body_def execute_def closes_def Let_def)
  next
    case n1: None
    show ?thesis
    proof (cases r2)
      case (Some e)
      then show ?thesis
        using n1 assms(3-7) main_entered[OF assms(1), of S0]
        by (auto simp: try_body_def execute_def closes_def Let_def)
    next
      case None
      then show ?thesis
        using n1 assms(3-7) main_entered[OF assms(1), of S0] pt
        by (auto simp: try_body_def execute_def closes_def Let_def)
    qed
  qed
qed

theorem nothing_to_load_witness:
  "enters_try (demo_env (\<lambda>p. False) always_ok) (demo_config [''A'', ''B'']) ''/work/out'' \<and>
   \<not> path_exists (demo_env (\<lambda>p. False) always_ok) (path_join ''/work/out'' (filename_of ''A'')) \<and>
   \<not> path_exists (demo_env (\<lambda>p. False) always_ok) (path_join ''/work/out'' (filename_of ''B'')) \<and>
   main (demo_env (\<lambda>p. False) always_ok) (demo_config [''A'', ''B'']) {(PATH_DONE, ''Z.csv.gz'')} =
     (Exit 0,
      \<lparr>stage = {(PATH_DONE, ''Z.csv.gz'')},
       trace = [Connect None, Cursor None,
                Execute (UseSchema ''DB'' ''PUBLIC'') None {(PATH_DONE, ''Z.csv.gz'')},
                Execute (CreateStage STAGE_NAME True stage_format) None {(PATH_DONE, ''Z.csv.gz'')},
                Log (Skipping ''A''), Log (Skipping ''B''), Close, Log Finished],
       n_exec = 2\<rparr>)"
proof -
  let ?E = "demo_env (\<lambda>p. False) always_ok"
  let ?C = "demo_config [''A'', ''B'']"
  let ?m = "main ?E ?C {(PATH_DONE, ''Z.csv.gz'')}"
  have h1: "enters_try ?E ?C ''/work/out''"
    by (simp add: enters_try_def demo_env_def demo_config_def demo_target_def connection_keys_def)
  have h2: "\<forall>t \<in> set (DATA_TABLES_TO_EXPORT ?C).
      \<not> path_exists ?E (path_join ''/work/out'' (filename_of t))"
    by (simp add: demo_env_def)
  have h3: "TARGET_CONFIG ?C ''database'' = Some ''DB''"
    by (simp add: demo_config_def demo_target_def)
  have h4: "TARGET_CONFIG ?C ''schema'' = Some ''PUBLIC''"
    by (simp add: demo_config_def demo_target_def)
  have h5: "None = raises ?E 0 (UseSchema ''DB'' ''PUBLIC'')"
    by (simp add: demo_env_def always_ok_def)
  have h6: "None = raises ?E 1 (CreateStage STAGE_NAME True stage_format)"
    by (simp add: demo_env_def always_ok_def)
  have h7: "?m = (fst ?m, snd ?m)" by simp
  have n: "n_exec (snd ?m) = 2" by (simp add: eval_defs)
  from nothing_to_load[OF h1 h2 h3 h4 h5 h6 h7]
  have "fst ?m = Exit 0" "stage (snd ?m) = {(PATH_DONE, ''Z.csv.gz'')}"
    "trace (snd ?m) = [Connect None, Cursor None,
                Execute (UseSchema ''DB'' ''PUBLIC'') None {(PATH_DONE, ''Z.csv.gz'')},
                Execute (CreateStage STAGE_NAME True stage_format) None {(PATH_DONE, ''Z.csv.gz'')},
                Log (Skipping ''A''), Log (Skipping ''B''), Close, Log Finished]"
    by (simp_all add: demo_config_def)
  with n have "?m = (Exit 0,
      \<lparr>stage = {(PATH_DONE, ''Z.csv.gz'')},
       trace = [Connect None, Cursor None,
                Execute (UseSchema ''DB'' ''PUBLIC'') None {(PATH_DONE, ''Z.csv.gz'')},
                Execute (CreateStage STAGE_NAME True stage_format) None {(PATH_DONE, ''Z.csv.gz'')},
                Log (Skipping ''A''), Log (Skipping ''B''), Close, Log Finished],
       n_exec = 2\<rparr>)"
    by (cases ?m, cases "snd ?m") auto
  with h1 h2 show ?thesis by (simp add: demo_config_def)
qed

subsection \<open>Tables without a local file\<close>

lemma config_keys:
  assumes "first_missing m connection_keys = None"
  shows "\<exists>d s. m ''database'' = Some d \<and> m ''schema'' = Some s"
  using assms by (auto simp: connection_keys_def split: option.splits)

lemma table_stmts_not_setup: "s \<in> table_stmts a t \<Longrightarrow> \<not> setup_stmt s"
  by (auto simp: table_stmts_def)

lemma table_stmts_same_file:
  assumes "s \<in> table_stmts a t" and "s \<in> table_stmts a t'"
  shows "path_join a (filename_of t) = path_join a (filename_of t')"
  using assms by (auto simp: table_stmts_def copy_sql_def)

lemma process_table_all_ok:
  assumes "path_exists env (path_join a (filename_of t))"
    and "\<forall>n. \<forall>s \<in> table_stmts a t. raises env n s = None"
  shows "fst (process_table env a t w) = None \<and>
         (\<exists>new. trace (snd (process_table env a t w)) = trace w @ new \<and>
            (\<forall>s \<in> table_stmts a t. (s, None) \<in> set (executed new)))"
  using assms
  unfolding process_table_def load_and_move_def execute_def then_do_def table_stmts_def
  by (simp add: Let_def)

lemma process_table_missing:
  assumes "\<not> path_exists env (path_join a (filename_of t))"
  shows "process_table env a t w = (None, emit (Log (Skipping t)) w)"
  using assms by (simp add: process_table_def Let_def)

lemma process_tables_all_ok:
  assumes "\<forall>t \<in> set ts. path_exists env (path_join a (filename_of t)) \<longrightarrow>
             (\<forall>n. \<forall>s \<in> table_stmts a t. raises env n s = None)"
  shows "fst (process_tables env a ts w) = None \<and>
         (\<exists>new. trace (snd (process_tables env a ts w)) = trace w @ new \<and>
            (\<forall>t \<in> set ts.
               if path_exists env (path_join a (filename_of t))
               then \<forall>s \<in> table_stmts a t. (s, None) \<in> set (executed new)
               else Log (Skipping t) \<in> set new))"
  using assms
proof (induction ts arbitrary: w)
  case Nil
  then show ?case by simp
next
  case (Cons t ts)
  let ?p = "process_table env a t w"
  have first: "fst ?p = None \<and>
      (\<exists>new. trace (snd ?p) = trace w @ new \<and>
         (if path_exists env (path_join a (filename_of t))
          then \<forall>s \<in> table_stmts a t. (s, None) \<in> set (executed new)
          else Log (Skipping t) \<in> set new))"
  proof (cases "path_exists env (path_join a (filename_of t))")
    case True
    with Cons.prems process_table_all_ok[OF True, of w] show ?thesis by simp
  next
    case False
    then show ?thesis by (simp add: process_table_missing)
  qed
  then obtain new1 where n1: "trace (snd ?p) = trace w @ new1"
    "if path_exists env (path_join a (filename_of t))
          then \<forall>s \<in> table_stmts a t. (s, None) \<in> set (executed new1)
          else Log (Skipping t) \<in> set new1"
    by blast
  from first have step: "process_tables env a (t # ts) w = process_tables env a ts (snd ?p)"
    by (cases ?p) simp
  from Cons.IH[of "snd ?p"] Cons.prems
  obtain new2 where n2: "fst (process_tables env a ts (snd ?p)) = None"
    "trace (snd (process_tables env a ts (snd ?p))) = trace (snd ?p) @ new2"
    "\<forall>t \<in> set ts.
               if path_exists env (path_join a (filename_of t))
               then \<forall>s \<in> table_stmts a t. (s, None) \<in> set (executed new2)
               else Log (Skipping t) \<in> set new2"
    by auto
  have "trace (snd (process_tables env a (t # ts) w)) = trace w @ (new1 @ new2)"
    using step n1(1) n2(2) by simp
  moreover have "\<forall>t' \<in> set (t # ts).
               if path_exists env (path_join a (filename_of t'))
               then \<forall>s \<in> table_stmts a t'. (s, None) \<in> set (executed (new1 @ new2))
               else Log (Skipping t') \<in> set (new1 @ new2)"
    using n1(2) n2(3) by (auto split: if_splits)
  ultimately show ?case using step n2(1) by metis
qed

text \<open>
  Claim C4. In a run that reaches the \<open>try\<close> and in which the statements before the loop
  and the statements of the tables that have a local file do not raise, the status is 0;
  every configured table without a local file is skipped with its message and no statement
  of that table (upload, copy or remove) is ever executed, whatever the warehouse would
  have answered to it; and the loop goes on: for every configured table with a local file
  the four statements of its iteration are executed and succeed.
\<close>

theorem missing_files_are_skipped:
  assumes "enters_try env cfg a"
    and "\<forall>n s. setup_stmt s \<or>
           (\<exists>t \<in> set (DATA_TABLES_TO_EXPORT cfg).
              path_exists env (path_join a (filename_of t)) \<and> s \<in> table_stmts a t)
           \<longrightarrow> raises env n s = None"
    and "main env cfg S0 = (out, w)"
  shows "out = Exit 0 \<and>
         (\<forall>t \<in> set (DATA_TABLES_TO_EXPORT cfg).
            \<not> path_exists env (path_join a (filename_of t)) \<longrightarrow>
              Log (Skipping t) \<in> set (trace w) \<and>
              (\<forall>s x S. Execute s x S \<in> set (trace w) \<longrightarrow> s \<notin> table_stmts a t)) \<and>
         (\<forall>t \<in> set (DATA_TABLES_TO_EXPORT cfg).
            path_exists env (path_join a (filename_of t)) \<longrightarrow>
              (\<forall>s \<in> table_stmts a t. (s, None) \<in> set (executed (trace w))))"
proof -
  let ?ts = "DATA_TABLES_TO_EXPORT cfg"
  let ?w2 = "\<lparr>stage = S0, trace = [Connect None, Cursor None], n_exec = 0\<rparr>"
  obtain d s where ds: "TARGET_CONFIG cfg ''database'' = Some d" "TARGET_CONFIG cfg ''schema'' = Some s"
    using assms(1) config_keys unfolding enters_try_def by blast
  have a: "abspath env (OUTPUT_DIR_DATA cfg) = Inr a"
    using assms(1) by (simp add: enters_try_def)
  have su: "\<And>n. raises env n (UseSchema d s) = None"
    "\<And>n. raises env n (CreateStage STAGE_NAME True stage_format) = None"
    using assms(2) by auto
  have tb: "\<forall>t \<in> set ?ts. path_exists env (path_join a (filename_of t)) \<longrightarrow>
             (\<forall>n. \<forall>s \<in> table_stmts a t. raises env n s = None)"
    using assms(2) by blast
  let ?w4 = "\<lparr>stage = S0,
      trace = [Connect None, Cursor None, Execute (UseSchema d s) None S0,
               Execute (CreateStage STAGE_NAME True stage_format) None S0], n_exec = 2\<rparr>"
  let ?l = "process_tables env a ?ts ?w4"
  have body: "try_body env cfg a ?w2 = ?l"
    using ds su by (simp add: try_body_def execute_def Let_def numeral_2_eq_2)
  from process_tables_all_ok[OF tb, of ?w4]
  obtain new where l: "fst ?l = None" "trace (snd ?l) = trace ?w4 @ new"
    "\<forall>t \<in> set ?ts.
               if path_exists env (path_join a (filename_of t))
               then \<forall>s \<in> table_stmts a t. (s, None) \<in> set (executed new)
               else Log (Skipping t) \<in> set new"
    by blast
  have m: "main env cfg S0 = (Exit 0, (snd ?l)\<lparr>trace := trace (snd ?l) @ [Close, Log Finished]\<rparr>)"
    using main_entered[OF assms(1), of S0] body l(1) by (cases ?l) simp
  with assms(3) have out: "out = Exit 0" and tr: "trace w = trace ?w4 @ new @ [Close, Log Finished]"
    using l(2) by auto
  have skipped: "Log (Skipping t) \<in> set (trace w) \<and>
              (\<forall>s x S. Execute s x S \<in> set (trace w) \<longrightarrow> s \<notin> table_stmts a t)"
    if t: "t \<in> set ?ts" and miss: "\<not> path_exists env (path_join a (filename_of t))" for t
  proof
    show "Log (Skipping t) \<in> set (trace w)" using l(3) t miss tr by auto
    show "\<forall>s x S. Execute s x S \<in> set (trace w) \<longrightarrow> s \<notin> table_stmts a t"
    proof (intro allI impI notI)
      fix s x S
      assume ex: "Execute s x S \<in> set (trace w)" and st: "s \<in> table_stmts a t"
      from main_executes[OF assms(3) ex] table_stmts_not_setup[OF st] a
      obtain t' where "t' \<in> set ?ts" "path_exists env (path_join a (filename_of t'))"
        "s \<in> table_stmts a t'" by auto
      with table_stmts_same_file[OF st] miss show False by simp
    qed
  qed
  have loaded: "\<forall>s \<in> table_stmts a t. (s, None) \<in> set (executed (trace w))"
    if t: "t \<in> set ?ts" and ex: "path_exists env (path_join a (filename_of t))" for t
    using l(3) t ex tr by auto
  from out skipped loaded show ?thesis by blast
qed

theorem missing_files_are_skipped_witness:
  "enters_try (demo_env only_A rejects_B) (demo_config [''A'', ''B'']) ''/work/out'' \<and>
   \<not> path_exists (demo_env only_A rejects_B) (path_join ''/work/out'' (filename_of ''B'')) \<and>
   fst (main (demo_env only_A rejects_B) (demo_config [''A'', ''B'']) {}) = Exit 0 \<and>
   Log (Skipping ''B'') \<in> set (trace (snd (main (demo_env only_A rejects_B) (demo_config [''A'', ''B'']) {}))) \<and>
   (CopyInto (copy_sql ''A'' (filename_of ''A'')), None)
     \<in> set (executed (trace (snd (main (demo_env only_A rejects_B) (demo_config [''A'', ''B'']) {}))))"
proof -
  let ?E = "demo_env only_A rejects_B"
  let ?C = "demo_config [''A'', ''B'']"
  let ?m = "main ?E ?C {}"
  have h1: "enters_try ?E ?C ''/work/out''"
    by (simp add: enters_try_def demo_env_def demo_config_def demo_target_def connection_keys_def)
  have a: "path_exists ?E (path_join ''/work/out'' (filename_of ''A''))"
    by (simp add: demo_env_def only_A_def path_join_def filename_of_def)
  have b: "\<not> path_exists ?E (path_join ''/work/out'' (filename_of ''B''))"
    by (simp add: demo_env_def only_A_def path_join_def filename_of_def)
  have h2: "\<forall>n s. setup_stmt s \<or>
           (\<exists>t \<in> set (DATA_TABLES_TO_EXPORT ?C).
              path_exists ?E (path_join ''/work/out'' (filename_of t)) \<and> s \<in> table_stmts ''/work/out'' t)
           \<longrightarrow> raises ?E n s = None"
    using b
    by (auto simp: demo_env_def demo_config_def rejects_B_def table_stmts_def
        copy_sql_def filename_of_def path_join_def)
  have h3: "?m = (fst ?m, snd ?m)" by simp
  have tb: "''B'' \<in> set (DATA_TABLES_TO_EXPORT ?C)" and ta: "''A'' \<in> set (DATA_TABLES_TO_EXPORT ?C)"
    by (simp_all add: demo_config_def)
  have ca: "CopyInto (copy_sql ''A'' (filename_of ''A'')) \<in> table_stmts ''/work/out'' ''A''"
    by (simp add: table_stmts_def)
  note r = missing_files_are_skipped[OF h1 h2 h3]
  from r have "fst ?m = Exit 0" by blast
  moreover from r tb b have "Log (Skipping ''B'') \<in> set (trace (snd ?m))" by blast
  moreover from r ta a ca have "(CopyInto (copy_sql ''A'' (filename_of ''A'')), None)
     \<in> set (executed (trace (snd ?m)))" by blast
  ultimately show ?thesis using h1 b by blast
qed

subsection \<open>A load that fails\<close>

lemma stops_append_nofail:
  "\<forall>ev \<in> set xs. \<not> failed ev \<Longrightarrow> stops_at_failure (xs @ ys) = stops_at_failure ys"
  by (induction xs) auto

lemma stops_append_logs:
  "stops_at_failure xs \<Longrightarrow> \<forall>ev \<in> set ys. \<not> is_execute ev \<Longrightarrow> stops_at_failure (xs @ ys)"
proof (induction xs)
  case Nil
  then show ?case by (induction ys) (auto elim: failed.elims)
next
  case (Cons x xs)
  then show ?case by auto
qed

lemma stops_split:
  "stops_at_failure (pre @ x # post) \<Longrightarrow> failed x \<Longrightarrow> \<forall>ev \<in> set post. \<not> is_execute ev"
  by (induction pre) auto

lemma last_stage_append:
  "last_stage S (xs @ ys) = last_stage (last_stage S xs) ys"
  by (induction S xs rule: last_stage.induct) simp_all

lemma last_stage_logs:
  "\<forall>ev \<in> set ys. \<not> is_execute ev \<Longrightarrow> last_stage S ys = S"
  by (induction S ys rule: last_stage.induct) simp_all

lemma copies_staged_append:
  "copies_staged (xs @ ys) \<longleftrightarrow> copies_staged xs \<and> copies_staged ys"
  by (auto simp: copies_staged_def)

lemma sound_step:
  assumes "sound S0 None w" and "trace w' = trace w @ new"
    and "r = None \<longrightarrow> (\<forall>ev \<in> set new. \<not> failed ev)"
    and "stops_at_failure new" and "stage w' = last_stage (stage w) new"
    and "copies_staged new"
  shows "sound S0 r w'"
  using assms
  by (auto simp: sound_def stops_append_nofail last_stage_append copies_staged_append)

lemma execute_sound:
  assumes "sound S0 None w" and "execute env s w = (r, w')" and "\<forall>c. s \<noteq> CopyInto c"
  shows "sound S0 r w'"
proof (rule sound_step[OF assms(1), where new = "[Execute s r (stage w')]"])
  show "trace w' = trace w @ [Execute s r (stage w')]"
    using assms(2) by (auto simp: execute_def Let_def)
  show "r = None \<longrightarrow> (\<forall>ev \<in> set [Execute s r (stage w')]. \<not> failed ev)" by simp
  show "stops_at_failure [Execute s r (stage w')]" by simp
  show "stage w' = last_stage (stage w) [Execute s r (stage w')]" by simp
  show "copies_staged [Execute s r (stage w')]" using assms(3) by (auto simp: copies_staged_def)
qed

lemma process_table_sound:
  assumes "sound S0 None w" and "process_table env a t w = (r, w')" and "CHR ''/'' \<notin> set t"
  shows "sound S0 r w'"
proof -
  have "\<exists>new. trace w' = trace w @ new \<and>
      (r = None \<longrightarrow> (\<forall>ev \<in> set new. \<not> failed ev)) \<and>
      stops_at_failure new \<and> stage w' = last_stage (stage w) new \<and> copies_staged new"
    using assms(2) basename_local[OF assms(3), of a]
    unfolding process_table_def load_and_move_def execute_def then_do_def copies_staged_def
    by (auto simp: Let_def copy_sql_def split: if_splits option.splits exn.splits)
  then show ?thesis using sound_step[OF assms(1)] by blast
qed

lemma try_body_sound:
  assumes "try_body env cfg a w = (r, w')" and "sound S0 None w"
    and "\<forall>t \<in> set (DATA_TABLES_TO_EXPORT cfg). CHR ''/'' \<notin> set t"
  shows "sound S0 r w'"
proof (rule try_body_rule[where I = "sound S0", OF assms(1,2)])
  show "\<And>k. sound S0 (Some (KeyError k)) w" using assms(2) by (simp add: sound_def)
next
  fix s v r v'
  assume "(\<exists>d c. s = UseSchema d c) \<or> s = CreateStage STAGE_NAME True stage_format"
    and "sound S0 None v" and "execute env s v = (r, v')"
  then show "sound S0 r v'" using execute_sound by blast
next
  fix t v r v'
  assume "t \<in> set (DATA_TABLES_TO_EXPORT cfg)" "sound S0 None v" "process_table env a t v = (r, v')"
  then show "sound S0 r v'" using process_table_sound assms(3) by blast
qed

text \<open>
  Claim C2. When a \<open>COPY\<close> statement raises (table names without \<open>/\<close>), the run exits
  with status 1; no statement is executed after it, so there is no upload to \<open>processed\<close>
  and no removal for that table and no later table is processed; the stage stays as that
  statement found it, with the table's file under \<open>not_processed\<close>.
\<close>

theorem failed_load_stops_run:
  assumes "main env cfg S0 = (out, w)"
    and "trace w = pre @ Execute (CopyInto c) (Some e) S # post"
    and "\<forall>t \<in> set (DATA_TABLES_TO_EXPORT cfg). CHR ''/'' \<notin> set t"
  shows "out = Exit 1 \<and> (\<forall>ev \<in> set post. \<not> is_execute ev) \<and>
         stage w = S \<and>
         (\<exists>t \<in> set (DATA_TABLES_TO_EXPORT cfg).
            c = copy_sql t (filename_of t) \<and> (PATH_TODO, filename_of t) \<in> stage w)"
proof -
  let ?X = "Execute (CopyInto c) (Some e) S"
  let ?w2 = "\<lparr>stage = S0, trace = [Connect None, Cursor None], n_exec = 0\<rparr>"
  have X: "?X \<in> set (trace w)" using assms(2) by simp
  from main_cases[OF assms(1)] X
  obtain a r3 w3 where tb: "try_body env cfg a ?w2 = (r3, w3)" and st: "stage w = stage w3"
    and c: "case r3 of None \<Rightarrow> out = Exit 0 \<and> trace w = trace w3 @ [Close, Log Finished]
               | Some e \<Rightarrow> out = Exit 1 \<and> trace w = trace w3 @ [Log (CriticalError e), Close, Log Finished]"
    by auto
  have "sound S0 None ?w2" by (simp add: sound_def copies_staged_def)
  from try_body_sound[OF tb this assms(3)] have s3: "sound S0 r3 w3" .
  obtain tail where tail: "trace w = trace w3 @ tail" "\<forall>ev \<in> set tail. \<not> is_execute ev"
    using c by (cases r3) auto
  have X3: "?X \<in> set (trace w3)" using X tail by auto
  then have "r3 \<noteq> None" using s3 unfolding sound_def by force
  then have out: "out = Exit 1" using c by auto
  have "stops_at_failure (trace w)"
    using s3 tail stops_append_logs unfolding sound_def by simp
  then have post: "\<forall>ev \<in> set post. \<not> is_execute ev"
    unfolding assms(2) using stops_split[of pre ?X post] by simp
  have "stage w = last_stage S0 (trace w)"
    using s3 st tail by (simp add: sound_def last_stage_append last_stage_logs)
  also have "\<dots> = S"
    unfolding assms(2) using post by (simp add: last_stage_append last_stage_logs)
  finally have S: "stage w = S" .
  have f: "(PATH_TODO, from_file c) \<in> S"
    using s3 X3 unfolding sound_def copies_staged_def by blast
  obtain t where t: "t \<in> set (DATA_TABLES_TO_EXPORT cfg)" "c = copy_sql t (filename_of t)"
    using main_executes[OF assms(1) X] by (auto simp: table_stmts_def)
  then have "from_file c = filename_of t" by (simp add: copy_sql_def)
  with f t S have "\<exists>t \<in> set (DATA_TABLES_TO_EXPORT cfg).
            c = copy_sql t (filename_of t) \<and> (PATH_TODO, filename_of t) \<in> stage w"
    by auto
  with out post S show ?thesis by simp
qed

theorem failed_load_stops_run_witness:
  "CHR ''/'' \<notin> set ''A'' \<and> CHR ''/'' \<notin> set ''B'' \<and>
   trace (snd (main (demo_env (\<lambda>p. True) rejects_copy) (demo_config [''A'', ''B'']) {})) =
     [Connect None, Cursor None,
      Execute (UseSchema ''DB'' ''PUBLIC'') None {},
      Execute (CreateStage STAGE_NAME True stage_format) None {},
      Execute (Put ''/work/out/A.csv.gz'' STAGE_NAME PATH_TODO True) None {(PATH_TODO, ''A.csv.gz'')}] @
     Execute (CopyInto (copy_sql ''A'' ''A.csv.gz'')) (Some ProgrammingError) {(PATH_TODO, ''A.csv.gz'')} #
     [Log (LoadFailed ''A''), Log (CriticalError ProgrammingError), Close, Log Finished] \<and>
   fst (main (demo_env (\<lambda>p. True) rejects_copy) (demo_config [''A'', ''B'']) {}) = Exit 1 \<and>
   stage (snd (main (demo_env (\<lambda>p. True) rejects_copy) (demo_config [''A'', ''B'']) {})) =
     {(PATH_TODO, ''A.csv.gz'')}"
proof -
  let ?E = "demo_env (\<lambda>p. True) rejects_copy"
  let ?C = "demo_config [''A'', ''B'']"
  let ?m = "main ?E ?C {}"
  have h1: "?m = (fst ?m, snd ?m)" by simp
  have h2: "trace (snd ?m) =
     [Connect None, Cursor None,
      Execute (UseSchema ''DB'' ''PUBLIC'') None {},
      Execute (CreateStage STAGE_NAME True stage_format) None {},
      Execute (Put ''/work/out/A.csv.gz'' STAGE_NAME PATH_TODO True) None {(PATH_TODO, ''A.csv.gz'')}] @
     Execute (CopyInto (copy_sql ''A'' ''A.csv.gz'')) (Some ProgrammingError) {(PATH_TODO, ''A.csv.gz'')} #
     [Log (LoadFailed ''A''), Log (CriticalError ProgrammingError), Close, Log Finished]"
    by (simp add: eval_defs rejects_copy_def)
  have h3: "\<forall>t \<in> set (DATA_TABLES_TO_EXPORT ?C). CHR ''/'' \<notin> set t"
    by (simp add: demo_config_def)
  from failed_load_stops_run[OF h1 h2 h3] h2 show ?thesis by simp
qed

subsection \<open>One prefix at a time\<close>

lemma todo_not_done [simp]: "PATH_TODO \<noteq> PATH_DONE" "PATH_DONE \<noteq> PATH_TODO"
  by (simp_all add: PATH_TODO_def PATH_DONE_def)

lemma archived_apart_no_overlap: "archived_apart ts S \<Longrightarrow> \<not> overlap S t"
  by (auto simp: archived_apart_def overlap_def)

lemma stable_apart_append: "stable_apart (xs @ ys) \<longleftrightarrow> stable_apart xs \<and> stable_apart ys"
  by (auto simp: stable_apart_def)

lemma process_table_apart:
  assumes "CHR ''/'' \<notin> set t" and "archived_apart (t # ts) (stage w)" and "t \<notin> set ts"
    and "process_table env a t w = (r, w')"
  shows "\<exists>new. trace w' = trace w @ new \<and> stable_apart new \<and>
           (r = None \<longrightarrow> archived_apart ts (stage w')) \<and>
           ((\<forall>ev \<in> set new. \<not> failed_remove ev) \<longrightarrow> (\<forall>u. \<not> overlap (stage w') u))"
proof -
  have d: "(PATH_DONE, filename_of t) \<notin> stage w"
    using assms(2) by (auto simp: archived_apart_def)
  have n: "\<And>u. \<not> overlap (stage w) u"
    using assms(2) by (rule archived_apart_no_overlap)
  have n1: "\<And>u. \<not> overlap (insert (PATH_TODO, filename_of t) (stage w)) u"
    using n d by (auto simp: overlap_def)
  have a3: "archived_apart ts
      (insert (PATH_DONE, filename_of t) (insert (PATH_TODO, filename_of t) (stage w))
        - {(PATH_TODO, filename_of t)})"
    using assms(2,3) by (auto simp: archived_apart_def)
  have a0: "archived_apart ts (stage w)"
    using assms(2) by (auto simp: archived_apart_def)
  define r1 where "r1 = raises env (n_exec w) (Put (path_join a (filename_of t)) STAGE_NAME PATH_TODO True)"
  define r2 where "r2 = raises env (Suc (n_exec w)) (CopyInto (copy_sql t (filename_of t)))"
  define r3 where "r3 = raises env (Suc (Suc (n_exec w))) (Put (path_join a (filename_of t)) STAGE_NAME PATH_DONE True)"
  define r4 where "r4 = raises env (Suc (Suc (Suc (n_exec w)))) (Remove STAGE_NAME PATH_TODO (filename_of t))"
  note e = r1_def[symmetric] r2_def[symmetric] r3_def[symmetric] r4_def[symmetric]
  show ?thesis
  proof (cases "path_exists env (path_join a (filename_of t))")
    case False
    then show ?thesis
      using assms(4) n a0 by (auto simp: process_table_def Let_def stable_apart_def)
  next
    case True
    show ?thesis
      using assms(4) True basename_local[OF assms(1), of a] n n1 a3 a0
        archived_apart_no_overlap[OF a3]
      unfolding process_table_def load_and_move_def execute_def then_do_def stable_apart_def
      by (cases r1; cases r2; cases r3; cases r4)
        (auto simp: e Let_def split: exn.splits)
  qed
qed

lemma process_tables_apart:
  assumes "distinct ts" and "\<forall>t \<in> set ts. CHR ''/'' \<notin> set t"
    and "archived_apart ts (stage w)" and "process_tables env a ts w = (r, w')"
  shows "\<exists>new. trace w' = trace w @ new \<and> stable_apart new \<and>
           ((\<forall>ev \<in> set new. \<not> failed_remove ev) \<longrightarrow> (\<forall>u. \<not> overlap (stage w') u))"
  using assms
proof (induction ts arbitrary: w)
  case Nil
  then show ?case by (auto simp: stable_apart_def archived_apart_no_overlap)
next
  case (Cons t ts)
  obtain r1 w1 where p: "process_table env a t w = (r1, w1)"
    by (cases "process_table env a t w")
  have "CHR ''/'' \<notin> set t" "t \<notin> set ts" using Cons.prems by auto
  from process_table_apart[OF this(1) Cons.prems(3) this(2) p]
  obtain new1 where n1: "trace w1 = trace w @ new1" "stable_apart new1"
    "r1 = None \<longrightarrow> archived_apart ts (stage w1)"
    "(\<forall>ev \<in> set new1. \<not> failed_remove ev) \<longrightarrow> (\<forall>u. \<not> overlap (stage w1) u)"
    by blast
  show ?case
  proof (cases r1)
    case (Some e)
    with p Cons.prems(4) have "r = r1" "w' = w1" by simp_all
    with n1 show ?thesis by blast
  next
    case None
    with p Cons.prems(4) have l: "process_tables env a ts w1 = (r, w')" by simp
    have "distinct ts" "\<forall>t \<in> set ts. CHR ''/'' \<notin> set t" using Cons.prems by auto
    from Cons.IH[OF this _ l] n1(3) None
    obtain new2 where n2: "trace w' = trace w1 @ new2" "stable_apart new2"
      "(\<forall>ev \<in> set new2. \<not> failed_remove ev) \<longrightarrow> (\<forall>u. \<not> overlap (stage w') u)"
      by blast
    have "trace w' = trace w @ (new1 @ new2)" using n1(1) n2(1) by simp
    moreover have "stable_apart (new1 @ new2)" using n1(2) n2(2) by (simp add: stable_apart_append)
    moreover have "(\<forall>ev \<in> set (new1 @ new2). \<not> failed_remove ev) \<longrightarrow> (\<forall>u. \<not> overlap (stage w') u)"
      using n2(3) by auto
    ultimately show ?thesis by blast
  qed
qed

lemma try_body_apart:
  assumes "distinct (DATA_TABLES_TO_EXPORT cfg)"
    and "\<forall>t \<in> set (DATA_TABLES_TO_EXPORT cfg). CHR ''/'' \<notin> set t"
    and "archived_apart (DATA_TABLES_TO_EXPORT cfg) (stage w)"
    and "try_body env cfg a w = (r, w')"
  shows "\<exists>new. trace w' = trace w @ new \<and> stable_apart new \<and>
           ((\<forall>ev \<in> set new. \<not> failed_remove ev) \<longrightarrow> (\<forall>u. \<not> overlap (stage w') u))"
proof -
  note n = archived_apart_no_overlap[OF assms(3)]
  show ?thesis
  proof (cases "TARGET_CONFIG cfg ''database''")
    case None
    with assms(4) n show ?thesis by (auto simp: try_body_def stable_apart_def)
  next
    case d: (Some d)
    show ?thesis
    proof (cases "TARGET_CONFIG cfg ''schema''")
      case None
      with d assms(4) n show ?thesis by (auto simp: try_body_def stable_apart_def)
    next
      case s: (Some s)
      define r1 where "r1 = raises env (n_exec w) (UseSchema d s)"
      define r2 where "r2 = raises env (Suc (n_exec w)) (CreateStage STAGE_NAME True stage_format)"
      note e = r1_def[symmetric] r2_def[symmetric]
      show ?thesis
      proof (cases r1)
        case (Some x)
        then show ?thesis
          using d s assms(4) n by (auto simp: try_body_def execute_def e Let_def stable_apart_def)
      next
        case n1: None
        show ?thesis
        proof (cases r2)
          case (Some x)
          then show ?thesis
            using n1 d s assms(4) n by (auto simp: try_body_def execute_def e Let_def stable_apart_def)
        next
          case None
          let ?pre = "[Execute (UseSchema d s) None (stage w),
                       Execute (CreateStage STAGE_NAME True stage_format) None (stage w)]"
          let ?w1 = "w\<lparr>trace := trace w @ ?pre, n_exec := Suc (Suc (n_exec w))\<rparr>"
          have l: "process_tables env a (DATA_TABLES_TO_EXPORT cfg) ?w1 = (r, w')"
            using None n1 d s assms(4) by (simp add: try_body_def execute_def e Let_def)
          have "archived_apart (DATA_TABLES_TO_EXPORT cfg) (stage ?w1)" using assms(3) by simp
          from process_tables_apart[OF assms(1,2) this l]
          obtain new where n2: "trace w' = trace ?w1 @ new" "stable_apart new"
            "(\<forall>ev \<in> set new. \<not> failed_remove ev) \<longrightarrow> (\<forall>u. \<not> overlap (stage w') u)"
            by blast
          have "stable_apart ?pre" using n by (auto simp: stable_apart_def)
          then have "stable_apart (?pre @ new)" using n2(2) by (simp only: stable_apart_append)
          moreover have "trace w' = trace w @ (?pre @ new)" using n2(1) by simp
          moreover have "(\<forall>ev \<in> set (?pre @ new). \<not> failed_remove ev) \<longrightarrow> (\<forall>u. \<not> overlap (stage w') u)"
            using n2(3) by auto
          ultimately show ?thesis by blast
        qed
      qed
    qed
  qed
qed

text \<open>
  Claim C6, as amended. Let the configured table names be pairwise distinct and without
  \<open>/\<close>, and let the run start from a stage in which no table's file is in both prefixes
  and no configured table's file is under \<open>processed\<close>. Then after every statement of the
  run outside the move step, no table's file is in both prefixes; and unless a removal
  raised, the same holds for the stage the run leaves behind.
\<close>

theorem at_most_one_prefix:
  assumes "main env cfg S0 = (out, w)"
    and "distinct (DATA_TABLES_TO_EXPORT cfg)"
    and "\<forall>t \<in> set (DATA_TABLES_TO_EXPORT cfg). CHR ''/'' \<notin> set t"
    and "\<forall>t. (PATH_DONE, filename_of t) \<in> S0 \<longrightarrow>
           (PATH_TODO, filename_of t) \<notin> S0 \<and> t \<notin> set (DATA_TABLES_TO_EXPORT cfg)"
  shows "(\<forall>s x S t. Execute s x S \<in> set (trace w) \<and> \<not> in_move_step (Execute s x S) \<longrightarrow>
            \<not> overlap S t) \<and>
         ((\<forall>ev \<in> set (trace w). \<not> failed_remove ev) \<longrightarrow> (\<forall>t. \<not> overlap (stage w) t))"
proof -
  have a0: "archived_apart (DATA_TABLES_TO_EXPORT cfg) S0"
    using assms(4) by (simp add: archived_apart_def)
  let ?w2 = "\<lparr>stage = S0, trace = [Connect None, Cursor None], n_exec = 0\<rparr>"
  from main_cases[OF assms(1)] show ?thesis
  proof (elim disjE exE conjE)
    fix a r3 w3
    assume tb: "try_body env cfg a ?w2 = (r3, w3)" and st: "stage w = stage w3"
      and c: "case r3 of None \<Rightarrow> out = Exit 0 \<and> trace w = trace w3 @ [Close, Log Finished]
               | Some e \<Rightarrow> out = Exit 1 \<and> trace w = trace w3 @ [Log (CriticalError e), Close, Log Finished]"
    have "archived_apart (DATA_TABLES_TO_EXPORT cfg) (stage ?w2)" using a0 by simp
    from try_body_apart[OF assms(2,3) this tb]
    obtain new where n: "trace w3 = [Connect None, Cursor None] @ new" "stable_apart new"
      "(\<forall>ev \<in> set new. \<not> failed_remove ev) \<longrightarrow> (\<forall>u. \<not> overlap (stage w3) u)"
      by auto
    obtain tail where t: "trace w = [Connect None, Cursor None] @ new @ tail"
      "\<forall>ev \<in> set tail. \<not> is_execute ev"
      using c n(1) by (cases r3) auto
    have "stable_apart tail" using t(2) by (force simp: stable_apart_def)
    moreover have "stable_apart [Connect None, Cursor None]" by (simp add: stable_apart_def)
    ultimately have "stable_apart (trace w)"
      unfolding t(1) using n(2) by (simp only: stable_apart_append)
    moreover have "(\<forall>ev \<in> set (trace w). \<not> failed_remove ev) \<longrightarrow> (\<forall>t. \<not> overlap (stage w) t)"
      using n(3) st t(1) by auto
    ultimately show ?thesis unfolding stable_apart_def by blast
  qed (use a0 archived_apart_no_overlap in auto)
qed

theorem at_most_one_prefix_witness:
  "distinct (DATA_TABLES_TO_EXPORT (demo_config [''A'', ''B''])) \<and>
   CHR ''/'' \<notin> set ''A'' \<and> CHR ''/'' \<notin> set ''B'' \<and>
   fst (main (demo_env (\<lambda>p. True) always_ok) (demo_config [''A'', ''B'']) {(PATH_DONE, ''Z.csv.gz'')}) = Exit 0 \<and>
   \<not> overlap (stage (snd (main (demo_env (\<lambda>p. True) always_ok) (demo_config [''A'', ''B''])
                             {(PATH_DONE, ''Z.csv.gz'')}))) ''A'' \<and>
   \<not> overlap (stage (snd (main (demo_env (\<lambda>p. True) always_ok) (demo_config [''A'', ''B''])
                             {(PATH_DONE, ''Z.csv.gz'')}))) ''B''"
proof -
  let ?E = "demo_env (\<lambda>p. True) always_ok"
  let ?C = "demo_config [''A'', ''B'']"
  let ?S0 = "{(PATH_DONE, ''Z.csv.gz'')}"
  let ?m = "main ?E ?C ?S0"
  have h1: "?m = (fst ?m, snd ?m)" by simp
  have h2: "distinct (DATA_TABLES_TO_EXPORT ?C)" by (simp add: demo_config_def)
  have h3: "\<forall>t \<in> set (DATA_TABLES_TO_EXPORT ?C). CHR ''/'' \<notin> set t"
    by (simp add: demo_config_def)
  have h4: "\<forall>t. (PATH_DONE, filename_of t) \<in> ?S0 \<longrightarrow>
           (PATH_TODO, filename_of t) \<notin> ?S0 \<and> t \<notin> set (DATA_TABLES_TO_EXPORT ?C)"
    by (auto simp: demo_config_def filename_of_def)
  have nf: "\<forall>ev \<in> set (trace (snd ?m)). \<not> failed_remove ev"
    by (simp add: eval_defs)
  have ex: "fst ?m = Exit 0" by (simp add: eval_defs)
  from at_most_one_prefix[OF h1 h2 h3 h4] nf
  have "\<forall>t. \<not> overlap (stage (snd ?m)) t" by blast
  with h2 ex show ?thesis by simp
qed

text \<open>
  Claim C6 as stated fails on a second run: the stage still holds table A's file under
  \<open>processed\<close> from an earlier successful load; the upload to \<open>not_processed\<close> puts the
  file in both prefixes, outside the move step, and when the load then fails the run ends
  (status 1) with the file in both.
\<close>

theorem overlap_after_rerun_counterexample:
  "Execute (Put ''/work/out/A.csv.gz'' STAGE_NAME PATH_TODO True) None
       {(PATH_TODO, ''A.csv.gz''), (PATH_DONE, ''A.csv.gz'')}
     \<in> set (trace (snd (main (demo_env (\<lambda>p. True) rejects_copy) (demo_config [''A''])
                          {(PATH_DONE, ''A.csv.gz'')}))) \<and>
   \<not> in_move_step (Execute (Put ''/work/out/A.csv.gz'' STAGE_NAME PATH_TODO True) None
       {(PATH_TODO, ''A.csv.gz''), (PATH_DONE, ''A.csv.gz'')}) \<and>
   overlap {(PATH_TODO, ''A.csv.gz''), (PATH_DONE, ''A.csv.gz'')} ''A'' \<and>
   fst (main (demo_env (\<lambda>p. True) rejects_copy) (demo_config [''A'']) {(PATH_DONE, ''A.csv.gz'')}) = Exit 1 \<and>
   overlap (stage (snd (main (demo_env (\<lambda>p. True) rejects_copy) (demo_config [''A''])
                          {(PATH_DONE, ''A.csv.gz'')}))) ''A''"
  by (simp add: eval_defs rejects_copy_def overlap_def PATH_TODO_def PATH_DONE_def insert_commute)

end
